theory Spec2Isabelle
  imports Main
begin

section \<open>The session verification wizard (component CompleteSecurity)\<close>

text \<open>
  The component keeps three fields of React state (\<open>phase\<close>, \<open>verificationRequest\<close>,
  \<open>backupInfo\<close>) and talks to three collaborators that are not part of the component:
  the client object, the secret-storage accessor \<open>accessSecretStorage\<close> and the
  verification requests the client hands in. The collaborators are parameters of the
  model: every call of one of them is an effect recorded in order, and what the call
  answers is supplied from outside.

  Conventions of the embedding:
  \<^item> \<open>setState\<close> merges the given fields into the state at once;
  \<^item> an awaited promise is a value of type \<open>settle\<close>: it resolves, rejects, or stays
    pending, and a handler that awaits a pending promise is suspended there for good;
  \<^item> the handler \<open>onVerificationRequest\<close> is split at its \<open>await\<close>, so that other
    events can be handled while \<open>request.accept()\<close> is in flight; the passphrase
    handler is run as one block, the events that can interleave with it touching
    neither \<open>phase\<close> nor \<open>backupInfo\<close>.
\<close>

subsection \<open>Data\<close>

text \<open>The four phase constants of the source, as the numbers they are.\<close>

definition PHASE_INTRO :: int where "PHASE_INTRO = 0"
definition PHASE_BUSY :: int where "PHASE_BUSY = 1"
definition PHASE_DONE :: int where "PHASE_DONE = 2"
definition PHASE_CONFIRM_SKIP :: int where "PHASE_CONFIRM_SKIP = 3"

text \<open>
  Thrown values: the distinguished cancellation error of the secret-storage accessor
  (tested with \<open>instanceof\<close>), any other error, the error of the last branch of
  \<open>render\<close>, and the TypeError of reading a property of \<open>null\<close>.
\<close>

datatype error =
    AccessCancelledError
  | Error string
  | UnknownPhase int
  | TypeError

datatype 'a settle = Resolves 'a | Rejects error | Pending

text \<open>
  A verification request is an object of the client: it is told apart by reference
  (\<open>reqId\<close>) and carries the id of the other user. Its \<open>cancelled\<close> flag changes under
  the component's feet, so it is read from a snapshot supplied with each change event.
\<close>

record request =
  reqId :: nat
  otherUserId :: string

type_synonym backup_info = string

record wizard_state =
  phase :: int
  verificationRequest :: "request option"
  backupInfo :: "backup_info option"

text \<open>Everything the component does to the outside, in the order it does it.\<close>

datatype effect =
    ClientOn
  | ClientRemoveListener
  | SetPhase int
  | SetBackupInfo "backup_info option"
  | SetVerificationRequest "request option"
  | GetKeyBackupVersion
  | AccessSecretStorage
  | CheckOwnCrossSigningTrust
  | ResolveWait
  | RejectWait error
  | RestoreKeyBackupWithSecretStorage backup_info
  | GetCrossSigningId
  | ConsoleError error
  | ConsoleLog error
  | Accept request
  | On request
  | Off request
  | OnFinished
  | Uncaught error

text \<open>
  The component instance together with what it has registered outside:
  \<open>subscriptions\<close> holds one entry for each listener the component has on the change
  stream of a request, \<open>accepting\<close> the invocations of \<open>onVerificationRequest\<close>
  suspended at \<open>await request.accept()\<close>, \<open>clientListening\<close> whether the listener for
  inbound requests is registered with the client.
\<close>

record world =
  state :: wizard_state
  userId :: string
  subscriptions :: "request list"
  accepting :: "request list"
  clientListening :: bool
  mounted :: bool
  effects :: "effect list"

text \<open>
  What the secret-storage accessor does with the callback it is given. Its code is not
  part of the component; the component only relies on this much: the call either throws
  before running the callback, or returns a promise, having run the callback or not,
  and that promise settles in some way of its own.
\<close>

datatype access_behaviour =
    AccessThrows error
  | AccessReturns bool "unit settle"

record env =
  getKeyBackupVersion :: "backup_info option settle"
  accessSecretStorage :: access_behaviour
  checkOwnCrossSigningTrust :: "unit settle"
  restoreKeyBackupWithSecretStorage :: "unit settle"
  getCrossSigningId :: "error + string option"

subsection \<open>State updates and effects\<close>

definition emit :: "effect \<Rightarrow> world \<Rightarrow> world" where
  "emit e w = w\<lparr>effects := effects w @ [e]\<rparr>"

definition setPhase :: "int \<Rightarrow> world \<Rightarrow> world" where
  "setPhase p w = emit (SetPhase p) (w\<lparr>state := (state w)\<lparr>phase := p\<rparr>\<rparr>)"

definition setBackupInfo :: "backup_info option \<Rightarrow> world \<Rightarrow> world" where
  "setBackupInfo b w = emit (SetBackupInfo b) (w\<lparr>state := (state w)\<lparr>backupInfo := b\<rparr>\<rparr>)"

definition setVerificationRequest :: "request option \<Rightarrow> world \<Rightarrow> world" where
  "setVerificationRequest r w =
     emit (SetVerificationRequest r) (w\<lparr>state := (state w)\<lparr>verificationRequest := r\<rparr>\<rparr>)"

text \<open>
  \<open>request.on("change", h)\<close> adds a listener; \<open>request.off("change", h)\<close> removes one
  instance of it and does nothing when there is none.
\<close>

definition on :: "request \<Rightarrow> world \<Rightarrow> world" where
  "on r w = emit (On r) (w\<lparr>subscriptions := subscriptions w @ [r]\<rparr>)"

definition off :: "request \<Rightarrow> world \<Rightarrow> world" where
  "off r w = emit (Off r) (w\<lparr>subscriptions := remove1 r (subscriptions w)\<rparr>)"

subsection \<open>Construction and unmounting\<close>

definition constructor :: "string \<Rightarrow> world" where
  "constructor uid =
     \<lparr>state = \<lparr>phase = PHASE_INTRO, verificationRequest = None, backupInfo = None\<rparr>,
      userId = uid, subscriptions = [], accepting = [], clientListening = True,
      mounted = True, effects = [ClientOn]\<rparr>"

text \<open>\<open>clientPresent\<close> is the truth value of \<open>MatrixClientPeg.get()\<close> at that moment.\<close>

definition componentWillUnmount :: "bool \<Rightarrow> world \<Rightarrow> world" where
  "componentWillUnmount clientPresent w =
     (let w1 = (case verificationRequest (state w) of
                  Some r \<Rightarrow> off r w
                | None \<Rightarrow> w);
          w2 = (if clientPresent
                then emit ClientRemoveListener (w1\<lparr>clientListening := False\<rparr>)
                else w1)
      in w2\<lparr>mounted := False\<rparr>)"

subsection \<open>The passphrase flow\<close>

text \<open>
  The async callback handed to \<open>accessSecretStorage\<close>: its effects, whether it reached
  \<open>resolve()\<close>, and how its own promise settles (that promise goes to the accessor,
  never to the wizard).
\<close>

definition accessCallback :: "env \<Rightarrow> backup_info option \<Rightarrow> effect list \<times> bool \<times> unit settle" where
  "accessCallback env info =
     (case checkOwnCrossSigningTrust env of
        Rejects e \<Rightarrow> ([CheckOwnCrossSigningTrust], False, Rejects e)
      | Pending \<Rightarrow> ([CheckOwnCrossSigningTrust], False, Pending)
      | Resolves _ \<Rightarrow>
          (case info of
             None \<Rightarrow> ([CheckOwnCrossSigningTrust, ResolveWait], True, Resolves ())
           | Some i \<Rightarrow>
               ([CheckOwnCrossSigningTrust, ResolveWait, RestoreKeyBackupWithSecretStorage i],
                True, restoreKeyBackupWithSecretStorage env)))"

text \<open>
  The promise the wizard awaits. Its executor calls \<open>accessSecretStorage\<close> inside a
  \<open>try\<close>: a synchronous throw is logged with \<open>console.error\<close> and rejects the promise;
  the promise \<open>accessSecretStorage\<close> returns is dropped, so however that one settles
  the wizard's promise is resolved by the callback or not at all.
\<close>

datatype wait = WaitResolved | WaitRejected error | WaitPending

definition waitPromise :: "env \<Rightarrow> backup_info option \<Rightarrow> effect list \<times> wait" where
  "waitPromise env info =
     (case accessSecretStorage env of
        AccessThrows e \<Rightarrow> ([AccessSecretStorage, ConsoleError e, RejectWait e], WaitRejected e)
      | AccessReturns invoked _ \<Rightarrow>
          (if invoked
           then (case accessCallback env info of
                   (es, resolved, _) \<Rightarrow>
                     (AccessSecretStorage # es, if resolved then WaitResolved else WaitPending))
           else ([AccessSecretStorage], WaitPending)))"

text \<open>The \<open>catch\<close> block of the handler.\<close>

definition catchBlock :: "error \<Rightarrow> world \<Rightarrow> world" where
  "catchBlock e w =
     setPhase PHASE_INTRO (if e \<noteq> AccessCancelledError then emit (ConsoleLog e) w else w)"

text \<open>Truthiness of what \<open>getCrossSigningId()\<close> returns: \<open>null\<close> and the empty string are falsy.\<close>

definition truthy :: "string option \<Rightarrow> bool" where
  "truthy v = (case v of None \<Rightarrow> False | Some s \<Rightarrow> s \<noteq> [])"

datatype flow_status = Returned | SuspendedAtGetKeyBackupVersion | SuspendedAtWait

text \<open>
  The handler \<open>_onUsePassphraseClick\<close>: the status says whether the async function ran
  to its end or is suspended at one of its two awaits.
\<close>

definition onUsePassphraseClick :: "env \<Rightarrow> world \<Rightarrow> flow_status \<times> world" where
  "onUsePassphraseClick env w =
     (let w1 = emit GetKeyBackupVersion (setPhase PHASE_BUSY w)
      in case getKeyBackupVersion env of
           Pending \<Rightarrow> (SuspendedAtGetKeyBackupVersion, w1)
         | Rejects e \<Rightarrow> (Returned, catchBlock e w1)
         | Resolves info \<Rightarrow>
             (let w2 = setBackupInfo info w1
              in case waitPromise env info of
                   (es, WaitPending) \<Rightarrow> (SuspendedAtWait, w2\<lparr>effects := effects w2 @ es\<rparr>)
                 | (es, WaitRejected e) \<Rightarrow>
                     (Returned, catchBlock e (w2\<lparr>effects := effects w2 @ es\<rparr>))
                 | (es, WaitResolved) \<Rightarrow>
                     (let w3 = emit GetCrossSigningId (w2\<lparr>effects := effects w2 @ es\<rparr>)
                      in case getCrossSigningId env of
                           Inl e \<Rightarrow> (Returned, catchBlock e w3)
                         | Inr v \<Rightarrow>
                             (Returned, if truthy v then setPhase PHASE_DONE w3 else w3))))"

subsection \<open>Verification requests\<close>

text \<open>
  \<open>onVerificationRequest\<close> up to its \<open>await\<close>: the early return for a request of
  another user, the unsubscription of the stored request, the call of \<open>accept()\<close>.
\<close>

definition onVerificationRequest_start :: "request \<Rightarrow> world \<Rightarrow> world" where
  "onVerificationRequest_start r w =
     (if otherUserId r \<noteq> userId w then w
      else
        (let w1 = (case verificationRequest (state w) of
                     Some old \<Rightarrow> off old w
                   | None \<Rightarrow> w)
         in emit (Accept r) (w1\<lparr>accepting := accepting w1 @ [r]\<rparr>)))"

text \<open>\<open>onVerificationRequest\<close> after \<open>accept()\<close> has resolved.\<close>

definition onVerificationRequest_resume :: "request \<Rightarrow> world \<Rightarrow> world" where
  "onVerificationRequest_resume r w =
     setVerificationRequest (Some r) (on r (w\<lparr>accepting := remove1 r (accepting w)\<rparr>))"

text \<open>
  The whole handler when nothing else is handled while \<open>accept()\<close> is in flight;
  a rejected \<open>accept()\<close> ends the handler there, a pending one leaves it suspended.
\<close>

definition onVerificationRequest :: "unit settle \<Rightarrow> request \<Rightarrow> world \<Rightarrow> world" where
  "onVerificationRequest accepted r w =
     (if otherUserId r \<noteq> userId w then w
      else
        (let w1 = onVerificationRequest_start r w
         in case accepted of
              Resolves _ \<Rightarrow> onVerificationRequest_resume r w1
            | Rejects _ \<Rightarrow> w1\<lparr>accepting := remove1 r (accepting w1)\<rparr>
            | Pending \<Rightarrow> w1))"

text \<open>
  \<open>onVerificationRequestChange\<close>; \<open>cancelled\<close> is the snapshot of the requests' flags.
  With no stored request the property read fails.
\<close>

definition onVerificationRequestChange :: "(request \<Rightarrow> bool) \<Rightarrow> world \<Rightarrow> error + world" where
  "onVerificationRequestChange cancelled w =
     (case verificationRequest (state w) of
        None \<Rightarrow> Inl TypeError
      | Some r \<Rightarrow>
          (if cancelled r then Inr (setVerificationRequest None (off r w)) else Inr w))"

subsection \<open>The skip and done buttons\<close>

definition onSkipClick :: "world \<Rightarrow> world" where
  "onSkipClick w = setPhase PHASE_CONFIRM_SKIP w"

definition onSkipConfirmClick :: "world \<Rightarrow> world" where
  "onSkipConfirmClick w = emit OnFinished w"

definition onSkipBackClick :: "world \<Rightarrow> world" where
  "onSkipBackClick w = setPhase PHASE_INTRO w"

definition onDoneClick :: "world \<Rightarrow> world" where
  "onDoneClick w = emit OnFinished w"

subsection \<open>Rendering\<close>

datatype button =
    UsePassphraseButton
  | SkipButton
  | SkipConfirmButton
  | GoBackButton
  | DoneButton
  | PanelClose

text \<open>
  The body \<open>render\<close> chooses; \<open>DoneBody\<close> records which of its two messages is shown
  (the one for a present \<open>backupInfo\<close> or the other).
\<close>

datatype body =
    EncryptionPanel request
  | IntroBody
  | DoneBody bool
  | ConfirmSkipBody
  | SpinnerBody

record view =
  icon :: "string option"
  title :: "string option"
  body :: body

definition render :: "wizard_state \<Rightarrow> error + view" where
  "render s =
     (case verificationRequest s of
        Some r \<Rightarrow> Inr \<lparr>icon = None, title = None, body = EncryptionPanel r\<rparr>
      | None \<Rightarrow>
          (if phase s = PHASE_INTRO
           then Inr \<lparr>icon = Some ''mx_E2EIcon_warning'', title = Some ''Complete security'',
                     body = IntroBody\<rparr>
           else if phase s = PHASE_DONE
           then Inr \<lparr>icon = Some ''mx_E2EIcon_verified'', title = Some ''Session verified'',
                     body = DoneBody (backupInfo s \<noteq> None)\<rparr>
           else if phase s = PHASE_CONFIRM_SKIP
           then Inr \<lparr>icon = Some ''mx_E2EIcon_warning'', title = Some ''Are you sure?'',
                     body = ConfirmSkipBody\<rparr>
           else if phase s = PHASE_BUSY
           then Inr \<lparr>icon = Some ''mx_E2EIcon_warning'', title = Some ''Complete security'',
                     body = SpinnerBody\<rparr>
           else Inl (UnknownPhase (phase s))))"

text \<open>The handlers each body wires to its clickable elements.\<close>

fun buttons :: "body \<Rightarrow> button list" where
  "buttons (EncryptionPanel r) = [PanelClose]"
| "buttons IntroBody = [UsePassphraseButton, SkipButton]"
| "buttons (DoneBody b) = [DoneButton]"
| "buttons ConfirmSkipBody = [SkipConfirmButton, GoBackButton]"
| "buttons SpinnerBody = []"

definition onScreen :: "world \<Rightarrow> button list" where
  "onScreen w =
     (if mounted w
      then (case render (state w) of Inl e \<Rightarrow> [] | Inr v \<Rightarrow> buttons (body v))
      else [])"

fun handler :: "button \<Rightarrow> env \<Rightarrow> world \<Rightarrow> world" where
  "handler UsePassphraseButton env w = snd (onUsePassphraseClick env w)"
| "handler SkipButton env w = onSkipClick w"
| "handler SkipConfirmButton env w = onSkipConfirmClick w"
| "handler GoBackButton env w = onSkipBackClick w"
| "handler DoneButton env w = onDoneClick w"
| "handler PanelClose env w = emit OnFinished w"

subsection \<open>The component as an event-driven system\<close>

text \<open>
  One event is handled at a time. A click reaches its handler only while the button is
  on screen; an inbound request reaches \<open>onVerificationRequest\<close> only while the
  listener is registered with the client; \<open>accept()\<close> settles only for an invocation
  that is waiting for it; a change event calls \<open>onVerificationRequestChange\<close> once for
  each listener the component has on that request, and an exception of the listener
  goes back to the emitter.
\<close>

datatype event =
    Click button env
  | VerificationRequest request
  | AcceptResolved request
  | AcceptRejected request
  | RequestChange request "request \<Rightarrow> bool"
  | Unmount bool

definition deliverChange :: "(request \<Rightarrow> bool) \<Rightarrow> world \<Rightarrow> world" where
  "deliverChange cancelled w =
     (case onVerificationRequestChange cancelled w of
        Inl e \<Rightarrow> emit (Uncaught e) w
      | Inr w' \<Rightarrow> w')"

fun step :: "event \<Rightarrow> world \<Rightarrow> world" where
  "step (Click b env) w = (if b \<in> set (onScreen w) then handler b env w else w)"
| "step (VerificationRequest r) w =
     (if clientListening w then onVerificationRequest_start r w else w)"
| "step (AcceptResolved r) w =
     (if r \<in> set (accepting w) then onVerificationRequest_resume r w else w)"
| "step (AcceptRejected r) w =
     (if r \<in> set (accepting w) then w\<lparr>accepting := remove1 r (accepting w)\<rparr> else w)"
| "step (RequestChange r cancelled) w =
     ((deliverChange cancelled ^^ count_list (subscriptions w) r) w)"
| "step (Unmount clientPresent) w =
     (if mounted w then componentWillUnmount clientPresent w else w)"

definition run :: "world \<Rightarrow> event list \<Rightarrow> world" where
  "run w evs = foldl (\<lambda>w e. step e w) w evs"

subsection \<open>Notions used to state the properties\<close>

text \<open>The effects a handler added: those of \<open>w'\<close> after the ones \<open>w\<close> already had.\<close>

definition since :: "world \<Rightarrow> world \<Rightarrow> effect list" where
  "since w w' = drop (length (effects w)) (effects w')"

definition validPhase :: "int \<Rightarrow> bool" where
  "validPhase p = (p = PHASE_INTRO \<or> p = PHASE_BUSY \<or> p = PHASE_DONE \<or> p = PHASE_CONFIRM_SKIP)"

fun storesValidPhase :: "effect \<Rightarrow> bool" where
  "storesValidPhase (SetPhase p) = validPhase p"
| "storesValidPhase _ = True"

definition phasesValid :: "world \<Rightarrow> bool" where
  "phasesValid w = (validPhase (phase (state w)) \<and> list_all storesValidPhase (effects w))"

text \<open>
  A run is sequential when no inbound request and no unmount is handled while an
  earlier \<open>accept()\<close> is still in flight.
\<close>

definition oneAtATime :: "event \<Rightarrow> world \<Rightarrow> bool" where
  "oneAtATime e w =
     (case e of
        VerificationRequest r \<Rightarrow> accepting w = []
      | Unmount p \<Rightarrow> accepting w = []
      | _ \<Rightarrow> True)"

fun sequential :: "world \<Rightarrow> event list \<Rightarrow> bool" where
  "sequential w [] = True"
| "sequential w (e # evs) = (oneAtATime e w \<and> sequential (step e w) evs)"

text \<open>The only subscription, if there is one, is to the stored request.\<close>

definition subscribedToStored :: "world \<Rightarrow> bool" where
  "subscribedToStored w =
     (length (accepting w) \<le> 1 \<and>
      (subscriptions w = [] \<or>
       (accepting w = [] \<and>
        (case verificationRequest (state w) of
           None \<Rightarrow> False
         | Some r \<Rightarrow> subscriptions w = [r]))))"

subsection \<open>Concrete inputs\<close>

definition env_ok :: env where
  "env_ok =
     \<lparr>getKeyBackupVersion = Resolves (Some ''1''),
      accessSecretStorage = AccessReturns True (Resolves ()),
      checkOwnCrossSigningTrust = Resolves (),
      restoreKeyBackupWithSecretStorage = Resolves (),
      getCrossSigningId = Inr (Some ''key'')\<rparr>"

text \<open>
  The accessor runs the callback and hands its failure on: the restore fails after the
  trust check has succeeded, so the accessor's promise rejects.
\<close>

definition env_restore_fails :: env where
  "env_restore_fails =
     env_ok\<lparr>accessSecretStorage := AccessReturns True (Rejects (Error ''restore failed'')),
            restoreKeyBackupWithSecretStorage := Rejects (Error ''restore failed'')\<rparr>"

text \<open>The user cancels: the accessor's promise rejects, the callback never runs.\<close>

definition env_cancel_async :: env where
  "env_cancel_async =
     env_ok\<lparr>accessSecretStorage := AccessReturns False (Rejects AccessCancelledError)\<rparr>"

text \<open>The user cancels and the accessor throws the cancellation out of the call itself.\<close>

definition env_cancel_sync :: env where
  "env_cancel_sync = env_ok\<lparr>accessSecretStorage := AccessThrows AccessCancelledError\<rparr>"

definition env_no_identity :: env where
  "env_no_identity = env_ok\<lparr>getCrossSigningId := Inr None\<rparr>"

definition req1 :: request where
  "req1 = \<lparr>reqId = 1, otherUserId = ''@alice:hs''\<rparr>"

definition req2 :: request where
  "req2 = \<lparr>reqId = 2, otherUserId = ''@alice:hs''\<rparr>"

definition req_foreign :: request where
  "req_foreign = \<lparr>reqId = 3, otherUserId = ''@bob:hs''\<rparr>"

section \<open>Properties\<close>

lemmas phase_defs = PHASE_INTRO_def PHASE_BUSY_def PHASE_DONE_def PHASE_CONFIRM_SKIP_def

lemmas update_defs =
  emit_def setPhase_def setBackupInfo_def setVerificationRequest_def on_def off_def

lemmas flow_defs =
  onUsePassphraseClick_def waitPromise_def accessCallback_def catchBlock_def truthy_def

lemmas env_defs =
  env_ok_def env_restore_fails_def env_cancel_async_def env_cancel_sync_def env_no_identity_def

subsection \<open>Once busy, always busy\<close>

text \<open>
  In phase Busy the screen shows the spinner, or the exchange panel when a request is
  stored; neither carries a button that changes the phase, and no other event does.
\<close>

lemma deliverChange_phase: "phase (state (deliverChange c w)) = phase (state w)"
  by (simp add: deliverChange_def onVerificationRequestChange_def update_defs
      split: option.splits)

lemma funpow_deliverChange_phase:
  "phase (state ((deliverChange c ^^ n) w)) = phase (state w)"
  by (induction n) (simp_all add: deliverChange_phase)

lemma busy_no_buttons:
  "phase (state w) = PHASE_BUSY \<Longrightarrow> b \<in> set (onScreen w) \<Longrightarrow> b = PanelClose"
  by (cases "verificationRequest (state w)"; cases "mounted w")
    (simp_all add: onScreen_def render_def phase_defs)

lemma step_keeps_busy:
  assumes "phase (state w) = PHASE_BUSY"
  shows "phase (state (step e w)) = PHASE_BUSY"
proof (cases e)
  case (Click b env)
  then show ?thesis using assms busy_no_buttons [of w b]
    by (auto simp: emit_def)
next
  case (VerificationRequest r)
  then show ?thesis using assms
    by (simp add: onVerificationRequest_start_def update_defs Let_def split: option.splits)
next
  case (AcceptResolved r)
  then show ?thesis using assms by (simp add: onVerificationRequest_resume_def update_defs)
next
  case (AcceptRejected r)
  then show ?thesis using assms by simp
next
  case (RequestChange r c)
  then show ?thesis using assms by (simp add: funpow_deliverChange_phase)
next
  case (Unmount p)
  then show ?thesis using assms
    by (simp add: componentWillUnmount_def update_defs Let_def split: option.splits)
qed

lemma run_keeps_busy:
  "phase (state w) = PHASE_BUSY \<Longrightarrow> phase (state (run w evs)) = PHASE_BUSY"
  unfolding run_def
  by (induction evs arbitrary: w) (simp_all add: step_keeps_busy)

subsection \<open>Only the four phases are ever stored\<close>

lemma validPhase_consts [simp]:
  "validPhase PHASE_INTRO" "validPhase PHASE_BUSY" "validPhase PHASE_DONE"
  "validPhase PHASE_CONFIRM_SKIP"
  by (simp_all add: validPhase_def)

lemma emit_valid: "storesValidPhase e \<Longrightarrow> phasesValid w \<Longrightarrow> phasesValid (emit e w)"
  by (simp add: phasesValid_def emit_def)

lemma emits_valid:
  "list_all storesValidPhase es \<Longrightarrow> phasesValid w \<Longrightarrow>
   phasesValid (w\<lparr>effects := effects w @ es\<rparr>)"
  by (simp add: phasesValid_def)

lemma setPhase_valid: "validPhase p \<Longrightarrow> phasesValid w \<Longrightarrow> phasesValid (setPhase p w)"
  by (simp add: phasesValid_def setPhase_def emit_def)

lemma setBackupInfo_valid: "phasesValid w \<Longrightarrow> phasesValid (setBackupInfo b w)"
  by (simp add: phasesValid_def setBackupInfo_def emit_def)

lemma setVerificationRequest_valid:
  "phasesValid w \<Longrightarrow> phasesValid (setVerificationRequest r w)"
  by (simp add: phasesValid_def setVerificationRequest_def emit_def)

lemma on_valid: "phasesValid w \<Longrightarrow> phasesValid (on r w)"
  by (simp add: phasesValid_def on_def emit_def)

lemma off_valid: "phasesValid w \<Longrightarrow> phasesValid (off r w)"
  by (simp add: phasesValid_def off_def emit_def)

lemma catchBlock_valid: "phasesValid w \<Longrightarrow> phasesValid (catchBlock e w)"
  by (simp add: catchBlock_def setPhase_valid emit_valid)

lemma waitPromise_valid: "list_all storesValidPhase (fst (waitPromise env info))"
  by (simp add: waitPromise_def accessCallback_def
      split: access_behaviour.splits settle.splits option.splits)

lemma onUsePassphraseClick_valid:
  assumes "phasesValid w"
  shows "phasesValid (snd (onUsePassphraseClick env w))"
proof -
  let ?w1 = "emit GetKeyBackupVersion (setPhase PHASE_BUSY w)"
  have w1: "phasesValid ?w1"
    using assms by (simp add: emit_valid setPhase_valid)
  show ?thesis
  proof (cases "getKeyBackupVersion env")
    case (Resolves info)
    let ?w2 = "setBackupInfo info ?w1"
    obtain es wt where wp: "waitPromise env info = (es, wt)"
      by (cases "waitPromise env info")
    then have "list_all storesValidPhase es"
      using waitPromise_valid [of env info] by simp
    then have w3: "phasesValid (?w2\<lparr>effects := effects ?w2 @ es\<rparr>)"
      using w1 by (simp add: emits_valid setBackupInfo_valid)
    then show ?thesis
      using Resolves wp
      by (cases wt; cases "getCrossSigningId env")
         (simp_all add: onUsePassphraseClick_def Let_def catchBlock_valid emit_valid
            setPhase_valid)
  next
    case (Rejects e)
    then show ?thesis
      using w1 by (simp add: onUsePassphraseClick_def Let_def catchBlock_valid)
  next
    case Pending
    then show ?thesis
      using w1 by (simp add: onUsePassphraseClick_def Let_def)
  qed
qed

lemma handler_valid: "phasesValid w \<Longrightarrow> phasesValid (handler b env w)"
  by (cases b)
     (simp_all add: onUsePassphraseClick_valid onSkipClick_def onSkipBackClick_def
        onSkipConfirmClick_def onDoneClick_def setPhase_valid emit_valid)

lemma deliverChange_valid: "phasesValid w \<Longrightarrow> phasesValid (deliverChange c w)"
  by (simp add: deliverChange_def onVerificationRequestChange_def emit_valid off_valid
      setVerificationRequest_valid split: option.splits)

lemma funpow_deliverChange_valid:
  "phasesValid w \<Longrightarrow> phasesValid ((deliverChange c ^^ n) w)"
  by (induction n) (simp_all add: deliverChange_valid)

lemma accepting_update_valid: "phasesValid (w\<lparr>accepting := a\<rparr>) = phasesValid w"
  by (simp add: phasesValid_def)

lemma step_valid:
  assumes "phasesValid w"
  shows "phasesValid (step e w)"
proof (cases e)
  case (Click b env)
  then show ?thesis using assms by (simp add: handler_valid)
next
  case (VerificationRequest r)
  then show ?thesis using assms
    by (simp add: onVerificationRequest_start_def Let_def emit_valid off_valid
        accepting_update_valid split: option.splits)
next
  case (AcceptResolved r)
  then show ?thesis using assms
    by (simp add: onVerificationRequest_resume_def setVerificationRequest_valid on_valid
        accepting_update_valid)
next
  case (AcceptRejected r)
  then show ?thesis using assms by (simp add: accepting_update_valid)
next
  case (RequestChange r c)
  then show ?thesis using assms by (simp add: funpow_deliverChange_valid)
next
  case (Unmount p)
  then show ?thesis using assms
    by (simp add: componentWillUnmount_def Let_def phasesValid_def off_def emit_def
        split: option.splits)
qed

lemma run_valid: "phasesValid w \<Longrightarrow> phasesValid (run w evs)"
  unfolding run_def by (induction evs arbitrary: w) (simp_all add: step_valid)

lemma render_valid: "validPhase (phase s) \<Longrightarrow> \<not> isl (render s)"
  by (auto simp: render_def validPhase_def split: option.splits)

subsection \<open>Failures that reach the catch block\<close>

text \<open>
  A failure of the descriptor fetch and a synchronous throw of the accessor do reach
  the \<open>catch\<close> block of the passphrase handler: the phase goes back to Intro, and
  \<open>console.log\<close> is called for every error but the cancellation.
\<close>

lemma caught_failure_returns_to_intro:
  assumes "getKeyBackupVersion env = Rejects e \<or>
           (getKeyBackupVersion env = Resolves info \<and> accessSecretStorage env = AccessThrows e)"
  shows "fst (onUsePassphraseClick env w) = Returned \<and>
         phase (state (snd (onUsePassphraseClick env w))) = PHASE_INTRO \<and>
         (ConsoleLog e \<in> set (since w (snd (onUsePassphraseClick env w))) \<longleftrightarrow>
            e \<noteq> AccessCancelledError)"
  using assms
  by (auto simp: flow_defs update_defs since_def Let_def)

subsection \<open>The request handler as two events\<close>

text \<open>
  Handling an inbound request of the own user and then the settling of its \<open>accept()\<close>,
  with nothing in between, is the handler \<open>onVerificationRequest\<close> run in one go.
\<close>

lemma onVerificationRequest_resolved_as_events:
  assumes "clientListening w" and "otherUserId r = userId w"
  shows "run w [VerificationRequest r, AcceptResolved r] =
         onVerificationRequest (Resolves ()) r w"
  using assms
  by (simp add: run_def onVerificationRequest_def onVerificationRequest_start_def
      update_defs Let_def split: option.splits)

lemma onVerificationRequest_rejected_as_events:
  assumes "clientListening w" and "otherUserId r = userId w"
  shows "run w [VerificationRequest r, AcceptRejected r] =
         onVerificationRequest (Rejects e) r w"
  using assms
  by (simp add: run_def onVerificationRequest_def onVerificationRequest_start_def
      update_defs Let_def split: option.splits)

subsection \<open>Subscriptions in sequential runs\<close>

text \<open>
  The buttons touch neither the subscriptions nor the stored request, and as long as
  one inbound request is dealt with at a time the component is subscribed to the
  stored request at most.
\<close>

lemma flow_frame:
  "subscriptions (snd (onUsePassphraseClick env w)) = subscriptions w \<and>
   accepting (snd (onUsePassphraseClick env w)) = accepting w \<and>
   verificationRequest (state (snd (onUsePassphraseClick env w))) =
     verificationRequest (state w)"
  by (cases "getKeyBackupVersion env"; cases "accessSecretStorage env";
      cases "checkOwnCrossSigningTrust env"; cases "getCrossSigningId env")
     (auto simp: flow_defs update_defs Let_def split: option.splits)

lemma handler_frame:
  "subscriptions (handler b env w) = subscriptions w \<and>
   accepting (handler b env w) = accepting w \<and>
   verificationRequest (state (handler b env w)) = verificationRequest (state w)"
  by (cases b)
     (simp_all add: flow_frame onSkipClick_def onSkipBackClick_def onSkipConfirmClick_def
        onDoneClick_def update_defs)

lemma handler_subscribedToStored:
  "subscribedToStored w \<Longrightarrow> subscribedToStored (handler b env w)"
  by (simp add: subscribedToStored_def handler_frame split: option.splits)

lemma step_subscribedToStored:
  assumes "subscribedToStored w" and "oneAtATime e w"
  shows "subscribedToStored (step e w)"
proof (cases e)
  case (Click b env)
  then show ?thesis using assms(1) by (simp add: handler_subscribedToStored)
next
  case (VerificationRequest r)
  then show ?thesis using assms
    by (auto simp: subscribedToStored_def oneAtATime_def onVerificationRequest_start_def
        update_defs Let_def split: option.splits)
next
  case (AcceptResolved r)
  then show ?thesis using assms(1)
    by (cases "accepting w")
       (auto simp: subscribedToStored_def onVerificationRequest_resume_def update_defs)
next
  case (AcceptRejected r)
  then show ?thesis using assms(1)
    by (cases "accepting w") (auto simp: subscribedToStored_def)
next
  case (RequestChange r c)
  show ?thesis
  proof (cases "subscriptions w = [r]")
    case True
    then have "step e w = deliverChange c w"
      using RequestChange by simp
    then show ?thesis using assms(1) True
      by (auto simp: subscribedToStored_def deliverChange_def onVerificationRequestChange_def
          update_defs split: option.splits)
  next
    case False
    then have "count_list (subscriptions w) r = 0"
      using assms(1) by (auto simp: subscribedToStored_def split: option.splits)
    then show ?thesis using RequestChange assms(1) by simp
  qed
next
  case (Unmount p)
  then show ?thesis using assms
    by (auto simp: subscribedToStored_def oneAtATime_def componentWillUnmount_def
        update_defs Let_def split: option.splits)
qed

lemma sequential_subscribedToStored:
  "subscribedToStored w \<Longrightarrow> sequential w evs \<Longrightarrow> subscribedToStored (run w evs)"
  unfolding run_def
  by (induction evs arbitrary: w) (simp_all add: step_subscribedToStored)

lemma sequential_at_most_one_subscription:
  assumes "sequential (constructor uid) evs"
  shows "length (subscriptions (run (constructor uid) evs)) \<le> 1"
proof -
  have "subscribedToStored (constructor uid)"
    by (simp add: subscribedToStored_def constructor_def)
  then have "subscribedToStored (run (constructor uid) evs)"
    using assms by (rule sequential_subscribedToStored)
  then show ?thesis
    by (auto simp: subscribedToStored_def split: option.splits)
qed

lemma sequential_unmount_unsubscribes:
  assumes "sequential (constructor uid) evs"
  shows "subscriptions (componentWillUnmount p (run (constructor uid) evs)) = []"
proof -
  have "subscribedToStored (constructor uid)"
    by (simp add: subscribedToStored_def constructor_def)
  then have "subscribedToStored (run (constructor uid) evs)"
    using assms by (rule sequential_subscribedToStored)
  then show ?thesis
    by (auto simp: subscribedToStored_def componentWillUnmount_def update_defs Let_def
        split: option.splits)
qed

section \<open>The claims\<close>

text \<open>
  Claim C1. When the wizard is in phase Intro and the user triggers the passphrase
  action, and fetching the key-backup descriptor, the secret-storage access (the
  accessor runs the callback) and the cross-signing trust check succeed, and the client
  then reports a cross-signing identity, the handler runs to its end and the final phase
  is Done; it is the last thing the handler stores. The same holds for the click on the
  button the Intro screen shows.
\<close>

theorem passphrase_success_ends_done:
  assumes "phase (state w) = PHASE_INTRO"
    and "getKeyBackupVersion env = Resolves info"
    and "accessSecretStorage env = AccessReturns True s"
    and "checkOwnCrossSigningTrust env = Resolves ()"
    and "getCrossSigningId env = Inr (Some k)"
    and "k \<noteq> []"
  shows "fst (onUsePassphraseClick env w) = Returned \<and>
         phase (state (snd (onUsePassphraseClick env w))) = PHASE_DONE \<and>
         last (effects (snd (onUsePassphraseClick env w))) = SetPhase PHASE_DONE \<and>
         (mounted w \<and> verificationRequest (state w) = None \<longrightarrow>
            phase (state (step (Click UsePassphraseButton env) w)) = PHASE_DONE)"
proof -
  have flow: "fst (onUsePassphraseClick env w) = Returned \<and>
      phase (state (snd (onUsePassphraseClick env w))) = PHASE_DONE \<and>
      last (effects (snd (onUsePassphraseClick env w))) = SetPhase PHASE_DONE"
    using assms
    by (cases info) (simp_all add: flow_defs update_defs Let_def)
  have "UsePassphraseButton \<in> set (onScreen w)"
    if "mounted w" and "verificationRequest (state w) = None"
    using that assms(1) by (simp add: onScreen_def render_def)
  with flow show ?thesis by simp
qed

theorem passphrase_success_ends_done_witness:
  "phase (state (constructor ''@alice:hs'')) = PHASE_INTRO \<and>
   getKeyBackupVersion env_ok = Resolves (Some ''1'') \<and>
   accessSecretStorage env_ok = AccessReturns True (Resolves ()) \<and>
   checkOwnCrossSigningTrust env_ok = Resolves () \<and>
   getCrossSigningId env_ok = Inr (Some ''key'') \<and>
   mounted (constructor ''@alice:hs'') \<and>
   verificationRequest (state (constructor ''@alice:hs'')) = None \<and>
   fst (onUsePassphraseClick env_ok (constructor ''@alice:hs'')) = Returned \<and>
   phase (state (snd (onUsePassphraseClick env_ok (constructor ''@alice:hs'')))) = PHASE_DONE \<and>
   phase (state (step (Click UsePassphraseButton env_ok) (constructor ''@alice:hs''))) = PHASE_DONE"
  using passphrase_success_ends_done
    [of "constructor ''@alice:hs''" env_ok "Some ''1''" "Resolves ()" "''key''"]
  by (simp add: env_ok_def constructor_def)

text \<open>
  Claim C2. The claim says that every failure of the passphrase flow brings the wizard
  back to Intro, silently when the failure is the cancellation. The component is
  evaluated at two cancellations. When the accessor's promise rejects with the
  cancellation error, the handler stays suspended at its wait and the phase is Busy, not
  Intro. When the accessor throws the cancellation error out of the call, the phase is
  Intro, and the error has been written with \<open>console.error\<close>.
\<close>

theorem passphrase_cancellation_evaluated:
  "fst (onUsePassphraseClick env_cancel_async (constructor ''@alice:hs'')) = SuspendedAtWait \<and>
   phase (state (snd (onUsePassphraseClick env_cancel_async (constructor ''@alice:hs'')))) =
     PHASE_BUSY \<and>
   phase (state (snd (onUsePassphraseClick env_cancel_async (constructor ''@alice:hs'')))) \<noteq>
     PHASE_INTRO \<and>
   phase (state (snd (onUsePassphraseClick env_cancel_sync (constructor ''@alice:hs'')))) =
     PHASE_INTRO \<and>
   ConsoleError AccessCancelledError \<in>
     set (effects (snd (onUsePassphraseClick env_cancel_sync (constructor ''@alice:hs''))))"
  by (simp add: env_defs flow_defs update_defs constructor_def phase_defs)



text \<open>
  Claim C4. The claim says that at every point the component has at most one
  subscription to a request's change stream and that none outlives the component. The
  component is evaluated at two requests of the own user that arrive one after the other
  before either \<open>accept()\<close> has resolved: when both have resolved there are two
  subscriptions, and after unmounting the one to the first request is still there.
\<close>

theorem concurrent_requests_leave_two_subscriptions:
  "length (subscriptions (run (constructor ''@alice:hs'')
      [VerificationRequest req1, VerificationRequest req2,
       AcceptResolved req1, AcceptResolved req2])) = 2 \<and>
   subscriptions (run (constructor ''@alice:hs'')
      [VerificationRequest req1, VerificationRequest req2,
       AcceptResolved req1, AcceptResolved req2, Unmount True]) = [req1] \<and>
   \<not> mounted (run (constructor ''@alice:hs'')
      [VerificationRequest req1, VerificationRequest req2,
       AcceptResolved req1, AcceptResolved req2, Unmount True])"
  by (simp add: run_def constructor_def req1_def req2_def onVerificationRequest_start_def
      onVerificationRequest_resume_def componentWillUnmount_def update_defs Let_def)

text \<open>
  Claim C5. For an inbound request of another user the handler returns at once: nothing
  is accepted and the whole component, its state with phase, stored request and backup
  descriptor included, is what it was, however \<open>accept()\<close> would have settled.
\<close>

theorem foreign_request_ignored:
  assumes "otherUserId r \<noteq> userId w"
  shows "onVerificationRequest accepted r w = w \<and>
         step (VerificationRequest r) w = w \<and>
         state (step (VerificationRequest r) w) = state w \<and>
         Accept r \<notin> set (since w (step (VerificationRequest r) w))"
  using assms
  by (simp add: onVerificationRequest_def onVerificationRequest_start_def since_def)

theorem foreign_request_ignored_witness:
  "otherUserId req_foreign \<noteq> userId (constructor ''@alice:hs'') \<and>
   onVerificationRequest (Resolves ()) req_foreign (constructor ''@alice:hs'') =
     constructor ''@alice:hs'' \<and>
   step (VerificationRequest req_foreign) (constructor ''@alice:hs'') = constructor ''@alice:hs''"
proof -
  have h: "otherUserId req_foreign \<noteq> userId (constructor ''@alice:hs'')"
    by (simp add: req_foreign_def constructor_def)
  from foreign_request_ignored [OF h, of "Resolves ()"] h show ?thesis by simp
qed

text \<open>
  Claim C6. From the Intro screen the skip button moves the wizard to ConfirmSkip; from
  there the go-back button returns it to Intro, and the skip button of the confirmation
  calls the parent's completion callback exactly once and does nothing else.
\<close>

theorem skip_confirm_and_back:
  assumes "mounted w" and "verificationRequest (state w) = None"
    and "phase (state w) = PHASE_INTRO"
  shows "phase (state (step (Click SkipButton env) w)) = PHASE_CONFIRM_SKIP \<and>
         phase (state (step (Click GoBackButton env) (step (Click SkipButton env) w))) =
           PHASE_INTRO \<and>
         since (step (Click SkipButton env) w)
               (step (Click SkipConfirmButton env) (step (Click SkipButton env) w)) =
           [OnFinished] \<and>
         count_list (effects (step (Click SkipConfirmButton env) (step (Click SkipButton env) w)))
             OnFinished =
           Suc (count_list (effects w) OnFinished) \<and>
         state (step (Click SkipConfirmButton env) (step (Click SkipButton env) w)) =
           state (step (Click SkipButton env) w)"
  using assms
  by (simp add: onScreen_def render_def phase_defs onSkipClick_def onSkipBackClick_def
      onSkipConfirmClick_def update_defs since_def)

theorem skip_confirm_and_back_witness:
  "mounted (constructor ''@alice:hs'') \<and>
   verificationRequest (state (constructor ''@alice:hs'')) = None \<and>
   phase (state (constructor ''@alice:hs'')) = PHASE_INTRO \<and>
   phase (state (step (Click SkipButton env_ok) (constructor ''@alice:hs''))) =
     PHASE_CONFIRM_SKIP \<and>
   phase (state (step (Click GoBackButton env_ok)
     (step (Click SkipButton env_ok) (constructor ''@alice:hs'')))) = PHASE_INTRO \<and>
   count_list (effects (step (Click SkipConfirmButton env_ok)
     (step (Click SkipButton env_ok) (constructor ''@alice:hs'')))) OnFinished = 1"
proof -
  have h: "mounted (constructor ''@alice:hs'')"
    "verificationRequest (state (constructor ''@alice:hs'')) = None"
    "phase (state (constructor ''@alice:hs'')) = PHASE_INTRO"
    by (simp_all add: constructor_def)
  have "count_list (effects (constructor ''@alice:hs'')) OnFinished = 0"
    by (simp add: constructor_def)
  with skip_confirm_and_back [OF h, of env_ok] h show ?thesis by simp
qed

text \<open>
  Claim C7. The order of the side effects of the passphrase handler. Whenever the
  secret-storage access is invoked, the key-backup descriptor has been fetched and
  stored just before. Whenever the wizard's wait is resolved, that happens inside the
  callback right after the trust check, which has succeeded. Whenever the restore is
  started, a backup descriptor was found, and the restore comes right after the trust
  check and the resolution of the wait; with a descriptor found, the restore is started
  as soon as the wait is resolved. How the restore settles changes nothing of what the
  handler does, nor of what any click does.
\<close>

theorem passphrase_effect_order:
  "(AccessSecretStorage \<in> set (since w (snd (onUsePassphraseClick env w))) \<longrightarrow>
      (\<exists>info. getKeyBackupVersion env = Resolves info \<and>
         backupInfo (state (snd (onUsePassphraseClick env w))) = info \<and>
         take 4 (since w (snd (onUsePassphraseClick env w))) =
           [SetPhase PHASE_BUSY, GetKeyBackupVersion, SetBackupInfo info,
            AccessSecretStorage])) \<and>
   (ResolveWait \<in> set (since w (snd (onUsePassphraseClick env w))) \<longrightarrow>
      checkOwnCrossSigningTrust env = Resolves () \<and>
      take 2 (drop 4 (since w (snd (onUsePassphraseClick env w)))) =
        [CheckOwnCrossSigningTrust, ResolveWait]) \<and>
   (RestoreKeyBackupWithSecretStorage i \<in> set (since w (snd (onUsePassphraseClick env w))) \<longrightarrow>
      getKeyBackupVersion env = Resolves (Some i) \<and>
      take 3 (drop 4 (since w (snd (onUsePassphraseClick env w)))) =
        [CheckOwnCrossSigningTrust, ResolveWait, RestoreKeyBackupWithSecretStorage i]) \<and>
   (getKeyBackupVersion env = Resolves (Some i) \<and>
    ResolveWait \<in> set (since w (snd (onUsePassphraseClick env w))) \<longrightarrow>
      RestoreKeyBackupWithSecretStorage i \<in> set (since w (snd (onUsePassphraseClick env w)))) \<and>
   onUsePassphraseClick (env\<lparr>restoreKeyBackupWithSecretStorage := r\<rparr>) w =
     onUsePassphraseClick env w \<and>
   step (Click b (env\<lparr>restoreKeyBackupWithSecretStorage := r\<rparr>)) w = step (Click b env) w"
proof -
  have indep: "onUsePassphraseClick (env\<lparr>restoreKeyBackupWithSecretStorage := r\<rparr>) w =
      onUsePassphraseClick env w"
    by (cases "getKeyBackupVersion env"; cases "accessSecretStorage env";
        cases "checkOwnCrossSigningTrust env")
       (auto simp: flow_defs Let_def split: option.splits)
  then have click: "step (Click b (env\<lparr>restoreKeyBackupWithSecretStorage := r\<rparr>)) w =
      step (Click b env) w"
    by (cases b) simp_all
  have order: "(AccessSecretStorage \<in> set (since w (snd (onUsePassphraseClick env w))) \<longrightarrow>
      (\<exists>info. getKeyBackupVersion env = Resolves info \<and>
         backupInfo (state (snd (onUsePassphraseClick env w))) = info \<and>
         take 4 (since w (snd (onUsePassphraseClick env w))) =
           [SetPhase PHASE_BUSY, GetKeyBackupVersion, SetBackupInfo info,
            AccessSecretStorage])) \<and>
   (ResolveWait \<in> set (since w (snd (onUsePassphraseClick env w))) \<longrightarrow>
      checkOwnCrossSigningTrust env = Resolves () \<and>
      take 2 (drop 4 (since w (snd (onUsePassphraseClick env w)))) =
        [CheckOwnCrossSigningTrust, ResolveWait]) \<and>
   (RestoreKeyBackupWithSecretStorage i \<in> set (since w (snd (onUsePassphraseClick env w))) \<longrightarrow>
      getKeyBackupVersion env = Resolves (Some i) \<and>
      take 3 (drop 4 (since w (snd (onUsePassphraseClick env w)))) =
        [CheckOwnCrossSigningTrust, ResolveWait, RestoreKeyBackupWithSecretStorage i]) \<and>
   (getKeyBackupVersion env = Resolves (Some i) \<and>
    ResolveWait \<in> set (since w (snd (onUsePassphraseClick env w))) \<longrightarrow>
      RestoreKeyBackupWithSecretStorage i \<in> set (since w (snd (onUsePassphraseClick env w))))"
    by (cases "getKeyBackupVersion env"; cases "accessSecretStorage env";
        cases "checkOwnCrossSigningTrust env"; cases "getCrossSigningId env")
       (auto simp: flow_defs update_defs since_def Let_def split: option.splits)
  from order indep click show ?thesis by simp
qed

theorem passphrase_effect_order_witness:
  "AccessSecretStorage \<in>
     set (since (constructor ''@alice:hs'')
       (snd (onUsePassphraseClick env_ok (constructor ''@alice:hs'')))) \<and>
   ResolveWait \<in>
     set (since (constructor ''@alice:hs'')
       (snd (onUsePassphraseClick env_ok (constructor ''@alice:hs'')))) \<and>
   RestoreKeyBackupWithSecretStorage ''1'' \<in>
     set (since (constructor ''@alice:hs'')
       (snd (onUsePassphraseClick env_ok (constructor ''@alice:hs'')))) \<and>
   getKeyBackupVersion env_ok = Resolves (Some ''1'') \<and>
   take 3 (drop 4 (since (constructor ''@alice:hs'')
       (snd (onUsePassphraseClick env_ok (constructor ''@alice:hs''))))) =
     [CheckOwnCrossSigningTrust, ResolveWait, RestoreKeyBackupWithSecretStorage ''1''] \<and>
   onUsePassphraseClick (env_ok\<lparr>restoreKeyBackupWithSecretStorage := Pending\<rparr>)
       (constructor ''@alice:hs'') =
     onUsePassphraseClick env_ok (constructor ''@alice:hs'')"
proof -
  have h: "since (constructor ''@alice:hs'')
       (snd (onUsePassphraseClick env_ok (constructor ''@alice:hs''))) =
     [SetPhase PHASE_BUSY, GetKeyBackupVersion, SetBackupInfo (Some ''1''), AccessSecretStorage,
      CheckOwnCrossSigningTrust, ResolveWait, RestoreKeyBackupWithSecretStorage ''1'',
      GetCrossSigningId, SetPhase PHASE_DONE]"
    by (simp add: env_ok_def constructor_def flow_defs update_defs since_def)
  have g: "getKeyBackupVersion env_ok = Resolves (Some ''1'')"
    by (simp add: env_ok_def)
  from passphrase_effect_order
    [of "constructor ''@alice:hs''" env_ok "''1''" Pending UsePassphraseButton] h g
  show ?thesis by simp
qed

text \<open>
  Claim C8, as stated, at a concrete input: the accessor runs the callback, the trust
  check succeeds, the restore fails and the accessor's promise rejects for it. The
  wizard's wait has been resolved by then, the handler runs to its end, and the phase is
  Done rather than Busy.
\<close>

theorem async_rejection_after_resolve_reaches_done:
  "accessSecretStorage env_restore_fails =
     AccessReturns True (Rejects (Error ''restore failed'')) \<and>
   fst (onUsePassphraseClick env_restore_fails (constructor ''@alice:hs'')) = Returned \<and>
   phase (state (snd (onUsePassphraseClick env_restore_fails (constructor ''@alice:hs'')))) =
     PHASE_DONE \<and>
   phase (state (snd (onUsePassphraseClick env_restore_fails (constructor ''@alice:hs'')))) \<noteq>
     PHASE_BUSY"
  by (simp add: env_defs flow_defs update_defs constructor_def phase_defs)

text \<open>
  Claim C8, amended. When the key-backup descriptor has been fetched and the accessor's
  promise rejects without the callback having resolved the wizard's wait (the callback
  was not run, or its trust check did not succeed), the rejection does not reach the
  wizard's promise: the handler stays suspended at its wait, its \<open>catch\<close> block does not
  run (nothing is logged with \<open>console.log\<close>, Intro is not stored), and the phase is
  Busy and stays Busy whatever events follow.
\<close>

theorem async_rejection_before_resolve_stays_busy:
  assumes "getKeyBackupVersion env = Resolves info"
    and "accessSecretStorage env = AccessReturns invoked (Rejects e)"
    and "\<not> invoked \<or> checkOwnCrossSigningTrust env \<noteq> Resolves ()"
  shows "fst (onUsePassphraseClick env w) = SuspendedAtWait \<and>
         RejectWait e \<notin> set (since w (snd (onUsePassphraseClick env w))) \<and>
         ConsoleLog e \<notin> set (since w (snd (onUsePassphraseClick env w))) \<and>
         SetPhase PHASE_INTRO \<notin> set (since w (snd (onUsePassphraseClick env w))) \<and>
         phase (state (snd (onUsePassphraseClick env w))) = PHASE_BUSY \<and>
         phase (state (run (snd (onUsePassphraseClick env w)) evs)) = PHASE_BUSY"
proof -
  have st: "fst (onUsePassphraseClick env w) = SuspendedAtWait"
    and ph: "phase (state (snd (onUsePassphraseClick env w))) = PHASE_BUSY"
    and ef: "set (since w (snd (onUsePassphraseClick env w))) \<subseteq>
        {SetPhase PHASE_BUSY, GetKeyBackupVersion, SetBackupInfo info, AccessSecretStorage,
         CheckOwnCrossSigningTrust}"
    using assms
    by (cases invoked; cases "checkOwnCrossSigningTrust env";
        simp add: flow_defs update_defs since_def Let_def)+
  from ef have "RejectWait e \<notin> set (since w (snd (onUsePassphraseClick env w)))"
    and "ConsoleLog e \<notin> set (since w (snd (onUsePassphraseClick env w)))"
    and "SetPhase PHASE_INTRO \<notin> set (since w (snd (onUsePassphraseClick env w)))"
    by (auto simp: phase_defs)
  with st ph run_keeps_busy [OF ph] show ?thesis by simp
qed

theorem async_rejection_before_resolve_stays_busy_witness:
  "getKeyBackupVersion env_cancel_async = Resolves (Some ''1'') \<and>
   accessSecretStorage env_cancel_async = AccessReturns False (Rejects AccessCancelledError) \<and>
   fst (onUsePassphraseClick env_cancel_async (constructor ''@alice:hs'')) = SuspendedAtWait \<and>
   phase (state (run (snd (onUsePassphraseClick env_cancel_async (constructor ''@alice:hs'')))
     [Click UsePassphraseButton env_ok, Click SkipButton env_ok])) = PHASE_BUSY"
proof -
  have h1: "getKeyBackupVersion env_cancel_async = Resolves (Some ''1'')"
    by (simp add: env_defs)
  have h2: "accessSecretStorage env_cancel_async =
      AccessReturns False (Rejects AccessCancelledError)"
    by (simp add: env_defs)
  have h3: "\<not> False \<or> checkOwnCrossSigningTrust env_cancel_async \<noteq> Resolves ()"
    by simp
  from async_rejection_before_resolve_stays_busy [OF h1 h2 h3] h1 h2
  show ?thesis by simp
qed

text \<open>
  Claim C9. When the passphrase flow goes through without an error (descriptor fetched,
  callback run, trust check succeeded) and the client then reports no cross-signing
  identity, the handler returns with the phase Busy: it has stored neither Done nor
  Intro, and the phase stays Busy whatever events follow.
\<close>

theorem no_identity_stays_busy:
  assumes "getKeyBackupVersion env = Resolves info"
    and "accessSecretStorage env = AccessReturns True s"
    and "checkOwnCrossSigningTrust env = Resolves ()"
    and "getCrossSigningId env = Inr v"
    and "\<not> truthy v"
  shows "fst (onUsePassphraseClick env w) = Returned \<and>
         phase (state (snd (onUsePassphraseClick env w))) = PHASE_BUSY \<and>
         SetPhase PHASE_DONE \<notin> set (since w (snd (onUsePassphraseClick env w))) \<and>
         SetPhase PHASE_INTRO \<notin> set (since w (snd (onUsePassphraseClick env w))) \<and>
         phase (state (run (snd (onUsePassphraseClick env w)) evs)) = PHASE_BUSY"
proof -
  have a: "fst (onUsePassphraseClick env w) = Returned"
    and b: "phase (state (snd (onUsePassphraseClick env w))) = PHASE_BUSY"
    and c: "since w (snd (onUsePassphraseClick env w)) =
         [SetPhase PHASE_BUSY, GetKeyBackupVersion, SetBackupInfo info, AccessSecretStorage,
          CheckOwnCrossSigningTrust, ResolveWait] @
         (case info of None \<Rightarrow> [] | Some i \<Rightarrow> [RestoreKeyBackupWithSecretStorage i]) @
         [GetCrossSigningId]"
    using assms by (cases info; simp add: flow_defs update_defs since_def Let_def)+
  from c have "SetPhase PHASE_DONE \<notin> set (since w (snd (onUsePassphraseClick env w)))"
    and "SetPhase PHASE_INTRO \<notin> set (since w (snd (onUsePassphraseClick env w)))"
    by (cases info; simp add: phase_defs)+
  with a b run_keeps_busy [OF b] show ?thesis by simp
qed

theorem no_identity_stays_busy_witness:
  "getKeyBackupVersion env_no_identity = Resolves (Some ''1'') \<and>
   accessSecretStorage env_no_identity = AccessReturns True (Resolves ()) \<and>
   checkOwnCrossSigningTrust env_no_identity = Resolves () \<and>
   getCrossSigningId env_no_identity = Inr None \<and>
   \<not> truthy None \<and>
   fst (onUsePassphraseClick env_no_identity (constructor ''@alice:hs'')) = Returned \<and>
   phase (state (snd (onUsePassphraseClick env_no_identity (constructor ''@alice:hs'')))) =
     PHASE_BUSY"
proof -
  have h: "getKeyBackupVersion env_no_identity = Resolves (Some ''1'')"
    "accessSecretStorage env_no_identity = AccessReturns True (Resolves ())"
    "checkOwnCrossSigningTrust env_no_identity = Resolves ()"
    "getCrossSigningId env_no_identity = Inr None"
    "\<not> truthy None"
    by (simp_all add: env_defs truthy_def)
  from no_identity_stays_busy [OF h] h show ?thesis by simp
qed

text \<open>
  Claim C10. Whatever events the component handles after its construction, the phase
  it holds is one of Intro, Busy, Done and ConfirmSkip, every phase it has stored on
  the way is one of them, and \<open>render\<close> does not end in its unknown-phase error.
\<close>

theorem phases_known_render_total:
  "validPhase (phase (state (run (constructor uid) evs))) \<and>
   list_all storesValidPhase (effects (run (constructor uid) evs)) \<and>
   \<not> isl (render (state (run (constructor uid) evs)))"
proof -
  have "phasesValid (constructor uid)"
    by (simp add: phasesValid_def constructor_def)
  then have "phasesValid (run (constructor uid) evs)"
    by (rule run_valid)
  then show ?thesis
    by (simp add: phasesValid_def render_valid)
qed

end
